theory Spec2Isabelle
  imports Complex_Main "HOL-Library.Log_Nat" "HOL-Library.Signed_Division"
begin

section \<open>Binary64 arithmetic\<close>

text \<open>
  \<^verbatim>\<open>mastery\<close> computes its day count as
  \<^verbatim>\<open>int(time.Since(lastDone).Hours() / 24)\<close>, which is \<^verbatim>\<open>float64\<close> arithmetic.
  A finite \<^verbatim>\<open>float64\<close> is a rational number, and every IEEE 754 operation returns the
  exact result rounded to the nearest number with a 53 bit significand, ties going to the
  even significand. That rounding is \<open>rnd64\<close>: the argument is scaled by the spacing
  \<open>ulp\<close> of the \<^verbatim>\<open>float64\<close> numbers of its binade, rounded to an integer, and scaled
  back. The exponent range is left open, so \<open>rnd64\<close> is the \<^verbatim>\<open>float64\<close> rounding for
  normal numbers only (magnitudes from \<open>2 powi -1022\<close> up to \<open>2 powi 1024\<close>). Every
  number that is rounded on the way to the day count is \<open>0\<close> or has a magnitude between
  \<open>2 powi -47\<close> and \<open>2 powi 42\<close> (\<open>operands_in_normal_range\<close> below).
\<close>

definition round_half_even :: "rat \<Rightarrow> int" where
  "round_half_even q =
     (let f = \<lfloor>q\<rfloor>; r = q - of_int f
      in if r < 1 / 2 then f
         else if 1 / 2 < r then f + 1
         else if even f then f else f + 1)"

definition binade :: "rat \<Rightarrow> int" where
  \<comment> \<open>for \<open>0 < x\<close>: the exponent \<open>e\<close> with \<open>2 powi e \<le> x < 2 powi (e + 1)\<close>\<close>
  "binade x =
     (let e0 = bitlen (fst (quotient_of x)) - bitlen (snd (quotient_of x))
      in if 2 powi e0 \<le> x then e0 else e0 - 1)"

definition rnd64 :: "rat \<Rightarrow> rat" where
  "rnd64 x =
     (if x = 0 then 0
      else let ulp = 2 powi (binade \<bar>x\<bar> - 52)
           in sgn x * of_int (round_half_even (\<bar>x\<bar> / ulp)) * ulp)"

definition float64_of_int :: "int \<Rightarrow> rat" where
  \<comment> \<open>the conversion \<^verbatim>\<open>float64(i)\<close>\<close>
  "float64_of_int i = rnd64 (of_int i)"

definition fadd :: "rat \<Rightarrow> rat \<Rightarrow> rat" where
  "fadd a b = rnd64 (a + b)"

definition fdiv :: "rat \<Rightarrow> rat \<Rightarrow> rat" where
  "fdiv a b = rnd64 (a / b)"

definition int_of_float64 :: "rat \<Rightarrow> int" where
  \<comment> \<open>the conversion \<^verbatim>\<open>int(f)\<close>: the fraction is discarded (truncation towards zero)\<close>
  "int_of_float64 f = (if 0 \<le> f then \<lfloor>f\<rfloor> else \<lceil>f\<rceil>)"


section \<open>Package time\<close>

text \<open>
  A \<^verbatim>\<open>time.Time\<close> is an instant, counted here in nanoseconds since Go's zero time
  (January 1, year 1, 00:00 UTC); the zero value of \<^verbatim>\<open>time.Time\<close> is the instant \<open>0\<close>.
  A \<^verbatim>\<open>time.Duration\<close> is an \<^verbatim>\<open>int64\<close> count of nanoseconds. \<^verbatim>\<open>Time.Sub\<close>
  returns the difference of two instants, and the largest or smallest \<^verbatim>\<open>Duration\<close>
  when the difference does not fit. The times that reach \<^verbatim>\<open>mastery\<close> are parsed from
  dates (or are the zero time) and carry no reading of the monotonic clock, so the
  difference is taken between wall clock readings.
\<close>

definition maxDuration :: int where
  "maxDuration = 2 ^ 63 - 1"

definition minDuration :: int where
  "minDuration = - (2 ^ 63)"

definition Hour :: int where
  "Hour = 60 * 60 * 1000000000"

definition Time_Sub :: "int \<Rightarrow> int \<Rightarrow> int" where
  "Time_Sub t u =
     (let d = t - u
      in if d < minDuration then minDuration
         else if maxDuration < d then maxDuration
         else d)"

definition Hours :: "int \<Rightarrow> rat" where
  \<comment> \<open>\<^verbatim>\<open>hour := d / Hour; nsec := d % Hour; return float64(hour) + float64(nsec)/(60*60*1e9)\<close>;
      Go's \<^verbatim>\<open>/\<close> and \<^verbatim>\<open>%\<close> on integers truncate towards zero\<close>
  "Hours d =
     (let hour = d sdiv Hour; nsec = d smod Hour
      in fadd (float64_of_int hour) (fdiv (float64_of_int nsec) (60 * 60 * 1000000000)))"

text \<open>
  The wall clock is part of the world the program runs in. \<open>clock_reads\<close> counts how
  often the clock has been read. \<^verbatim>\<open>time.Since(t)\<close> is \<^verbatim>\<open>time.Now().Sub(t)\<close>.
\<close>

record world =
  wall_clock :: int
  clock_reads :: nat

definition time_Now :: "world \<Rightarrow> int \<times> world" where
  "time_Now w = (wall_clock w, w\<lparr>clock_reads := Suc (clock_reads w)\<rparr>)"

definition time_Since :: "int \<Rightarrow> world \<Rightarrow> int \<times> world" where
  "time_Since t w = (let (now, w') = time_Now w in (Time_Sub now t, w'))"


section \<open>Mastery\<close>

text \<open>
  \<^verbatim>\<open>Mastery\<close> and the count \<^verbatim>\<open>timesDone\<close> are Go \<^verbatim>\<open>int\<close>s. The count is only compared
  with constants and the level is a difference of two numbers between 0 and 5, so
  nothing can overflow and the integers of HOL compute what the machine integers do.
  \<^verbatim>\<open>mastery\<close> takes the world as an argument and returns it with the level, since
  \<^verbatim>\<open>time.Since\<close> reads the clock.
\<close>

definition levels :: "string list" where
  "levels = ['''', ''+'', ''++'', ''+++'', ''++++'', ''+++++'']"

definition Mastery_String :: "int \<Rightarrow> string" where
  "Mastery_String m =
     (if m < 0 \<or> int (length levels) \<le> m then '''' else levels ! nat m)"

definition daysAgo_of :: "int \<Rightarrow> int" where
  \<comment> \<open>\<^verbatim>\<open>int(d.Hours() / 24)\<close> for the duration \<open>d\<close> that \<^verbatim>\<open>time.Since\<close> returned\<close>
  "daysAgo_of d = int_of_float64 (fdiv (Hours d) 24)"

definition mastery :: "int \<Rightarrow> int \<Rightarrow> world \<Rightarrow> int \<times> world" where
  "mastery timesDone lastDone w =
     (if timesDone \<le> 0 then (0, w)
      else
        let base = (if timesDone \<le> 2 then 1
                    else if timesDone \<le> 5 then 2
                    else if timesDone \<le> 9 then 3
                    else if timesDone \<le> 14 then 4
                    else 5);
            (since, w') = time_Since lastDone w;
            daysAgo = daysAgo_of since;
            decay = (if daysAgo \<le> 3 then 0
                     else if daysAgo \<le> 7 then 1
                     else if daysAgo \<le> 14 then 2
                     else 3);
            level = base - decay;
            level = (if level < 0 then 0 else level)
        in (level, w'))"

text \<open>
  The level and the day count when the wall clock shows \<open>now\<close> at the call.
\<close>

definition mastery_at :: "int \<Rightarrow> int \<Rightarrow> int \<Rightarrow> int" where
  "mastery_at timesDone lastDone now =
     fst (mastery timesDone lastDone \<lparr>wall_clock = now, clock_reads = 0\<rparr>)"

definition daysAgo_at :: "int \<Rightarrow> int \<Rightarrow> int" where
  "daysAgo_at lastDone now = daysAgo_of (Time_Sub now lastDone)"

text \<open>
  The two step tables of the specification, in its own words: the base level from the
  number of repetitions and the decay from the number of whole days.
\<close>

definition spec_base :: "int \<Rightarrow> int" where
  "spec_base timesDone =
     (if timesDone \<le> 0 then 0
      else if 1 \<le> timesDone \<and> timesDone \<le> 2 then 1
      else if 3 \<le> timesDone \<and> timesDone \<le> 5 then 2
      else if 6 \<le> timesDone \<and> timesDone \<le> 9 then 3
      else if 10 \<le> timesDone \<and> timesDone \<le> 14 then 4
      else 5)"

definition spec_decay :: "int \<Rightarrow> int" where
  "spec_decay daysAgo =
     (if daysAgo \<le> 3 then 0
      else if 4 \<le> daysAgo \<and> daysAgo \<le> 7 then 1
      else if 8 \<le> daysAgo \<and> daysAgo \<le> 14 then 2
      else 3)"

text \<open>
  The second summand of \<open>Hours\<close>: the nanoseconds beyond the last whole hour, as a
  \<^verbatim>\<open>float64\<close> fraction of an hour.
\<close>

definition hour_frac :: "int \<Rightarrow> rat" where
  "hour_frac n = rnd64 (of_int n / 3600000000000)"

definition in_normal_range :: "rat \<Rightarrow> bool" where
  "in_normal_range x \<longleftrightarrow> x = 0 \<or> (1 / 2 ^ 47 \<le> \<bar>x\<bar> \<and> \<bar>x\<bar> < 2 ^ 42)"


section \<open>The katas file\<close>

















definition day :: int where
  "day = 24 * Hour"


section \<open>Rounding to a \<^verbatim>\<open>float64\<close>\<close>

subsection \<open>Binades\<close>

text \<open>
  \<open>binade x\<close> is the exponent of the leading bit of a positive \<open>x\<close>; it is computed
  from the bit lengths of numerator and denominator.
\<close>

lemma binade_bounds:
  assumes "0 < x"
  shows "2 powi binade x \<le> x \<and> x < 2 powi (binade x + 1)"
proof -
  obtain p q where pq: "quotient_of x = (p, q)" by force
  have q: "0 < q" using quotient_of_denom_pos [OF pq] .
  have x: "x = of_int p / of_int q" using quotient_of_div [OF pq] .
  have p: "0 < p" using assms x q by (simp add: zero_less_divide_iff)
  define a where "a = bitlen p"
  define b where "b = bitlen q"
  have a1: "1 \<le> a" using p bitlen_eq_zero_iff [of p] bitlen_nonneg [of p] by (simp add: a_def)
  have b1: "1 \<le> b" using q bitlen_eq_zero_iff [of q] bitlen_nonneg [of q] by (simp add: b_def)
  have pl: "(2::rat) powi (a - 1) \<le> of_int p"
  proof -
    have "(2::int) ^ nat (a - 1) \<le> p" using bitlen_bounds [OF p] by (simp add: a_def)
    then have "(of_int ((2::int) ^ nat (a - 1)) :: rat) \<le> of_int p" by (simp only: of_int_le_iff)
    then show ?thesis using a1 by (simp add: power_int_nonneg_exp)
  qed
  have pu: "of_int p < (2::rat) powi a"
  proof -
    have "p < (2::int) ^ nat a" using bitlen_bounds [OF p] by (simp add: a_def)
    then have "(of_int p :: rat) < of_int ((2::int) ^ nat a)" by (simp only: of_int_less_iff)
    then show ?thesis using a1 by (simp add: power_int_nonneg_exp)
  qed
  have ql: "(2::rat) powi (b - 1) \<le> of_int q"
  proof -
    have "(2::int) ^ nat (b - 1) \<le> q" using bitlen_bounds [OF q] by (simp add: b_def)
    then have "(of_int ((2::int) ^ nat (b - 1)) :: rat) \<le> of_int q" by (simp only: of_int_le_iff)
    then show ?thesis using b1 by (simp add: power_int_nonneg_exp)
  qed
  have qu: "of_int q < (2::rat) powi b"
  proof -
    have "q < (2::int) ^ nat b" using bitlen_bounds [OF q] by (simp add: b_def)
    then have "(of_int q :: rat) < of_int ((2::int) ^ nat b)" by (simp only: of_int_less_iff)
    then show ?thesis using b1 by (simp add: power_int_nonneg_exp)
  qed
  have qpos: "(0::rat) < of_int q" using q by simp
  have lower: "(2::rat) powi (a - b - 1) < x"
  proof -
    have "(2::rat) powi (a - b - 1) * of_int q < 2 powi (a - b - 1) * 2 powi b"
      using qu by (simp add: mult_strict_left_mono)
    also have "\<dots> = 2 powi (a - 1)" by (simp flip: power_int_add)
    also have "\<dots> \<le> of_int p" by (rule pl)
    finally show ?thesis using qpos by (simp add: x pos_less_divide_eq)
  qed
  have upper: "x < (2::rat) powi (a - b + 1)"
  proof -
    have "of_int p < (2::rat) powi a" by (rule pu)
    also have "\<dots> = 2 powi (a - b + 1) * 2 powi (b - 1)" by (simp flip: power_int_add)
    also have "\<dots> \<le> 2 powi (a - b + 1) * of_int q"
      using ql by (simp add: mult_left_mono)
    finally show ?thesis using qpos by (simp add: x pos_divide_less_eq)
  qed
  have e: "binade x = (if 2 powi (a - b) \<le> x then a - b else a - b - 1)"
    by (simp add: binade_def pq a_def b_def Let_def)
  show ?thesis
  proof (cases "2 powi (a - b) \<le> x")
    case True
    then show ?thesis using upper e by simp
  next
    case False
    then show ?thesis using lower e by simp
  qed
qed

lemma pow2_less_imp:
  assumes "(2::rat) powi m < 2 powi n"
  shows "m < n"
proof (rule ccontr)
  assume "\<not> m < n"
  then have "n \<le> m" by simp
  then have "(2::rat) powi n \<le> 2 powi m" by (simp add: power_int_increasing)
  with assms show False by simp
qed

lemma binade_unique:
  assumes "2 powi e \<le> x" "x < 2 powi (e + 1)"
  shows "binade x = e"
proof -
  have "(0::rat) < 2 powi e" by simp
  with assms(1) have pos: "0 < x" by linarith
  note b = binade_bounds [OF pos]
  have "2 powi binade x < (2::rat) powi (e + 1)" using b assms by simp
  then have 1: "binade x < e + 1" by (rule pow2_less_imp)
  have "2 powi e < (2::rat) powi (binade x + 1)" using b assms by simp
  then have 2: "e < binade x + 1" by (rule pow2_less_imp)
  from 1 2 show ?thesis by simp
qed

lemma binade_mono:
  assumes "0 < x" "x \<le> y"
  shows "binade x \<le> binade y"
proof -
  have y: "0 < y" using assms by simp
  have "2 powi binade x \<le> x" using binade_bounds [OF assms(1)] by simp
  also have "x \<le> y" by fact
  also have "y < 2 powi (binade y + 1)" using binade_bounds [OF y] by simp
  finally have "binade x < binade y + 1" by (rule pow2_less_imp)
  then show ?thesis by simp
qed

lemma binade_less:
  assumes "0 < x" "x < 2 powi k"
  shows "binade x < k"
proof -
  have "2 powi binade x \<le> x" using binade_bounds [OF assms(1)] by simp
  also have "x < 2 powi k" by fact
  finally show ?thesis by (rule pow2_less_imp)
qed

subsection \<open>Rounding to an integer, ties to even\<close>

lemma rhe_bounds:
  "of_int (round_half_even q) \<le> q + 1 / 2 \<and> q - 1 / 2 \<le> of_int (round_half_even q)"
proof -
  define f where "f = \<lfloor>q\<rfloor>"
  have "of_int f \<le> q" "q < of_int f + 1" unfolding f_def by linarith+
  then show ?thesis unfolding round_half_even_def Let_def f_def [symmetric] by auto
qed

lemma rhe_of_int [simp]: "round_half_even (of_int k) = k"
  by (simp add: round_half_even_def)

lemma rhe_range: "\<lfloor>q\<rfloor> \<le> round_half_even q \<and> round_half_even q \<le> \<lfloor>q\<rfloor> + 1"
  by (simp add: round_half_even_def Let_def)

lemma rhe_mono:
  assumes "q1 \<le> q2"
  shows "round_half_even q1 \<le> round_half_even q2"
proof (cases "\<lfloor>q1\<rfloor> = \<lfloor>q2\<rfloor>")
  case True
  then show ?thesis using assms by (auto simp add: round_half_even_def Let_def)
next
  case False
  moreover have "\<lfloor>q1\<rfloor> \<le> \<lfloor>q2\<rfloor>" using assms by (rule floor_mono)
  ultimately have "\<lfloor>q1\<rfloor> + 1 \<le> \<lfloor>q2\<rfloor>" by simp
  then show ?thesis using rhe_range [of q1] rhe_range [of q2] by linarith
qed

lemma rhe_ge: "of_int k \<le> q \<Longrightarrow> k \<le> round_half_even q"
  using rhe_mono [of "of_int k" q] by simp

lemma rhe_le: "q \<le> of_int k \<Longrightarrow> round_half_even q \<le> k"
  using rhe_mono [of q "of_int k"] by simp

lemma rhe_below: 
  assumes "q < of_int k - 1 / 2"
  shows "round_half_even q \<le> k - 1"
proof -
  have "of_int (round_half_even q) < (of_int k :: rat)" using rhe_bounds [of q] assms by linarith
  then show ?thesis by simp
qed

subsection \<open>Rounding to 53 bits\<close>

text \<open>
  \<open>rnd64\<close> is odd and monotone, it moves its argument by at most half the spacing of
  its binade and not out of the closed binade, and it leaves the integers below
  \<open>2 ^ 53\<close> alone. \<open>rnd64_below\<close> is the step that decides the day count at the end
  of a day: an argument more than half a spacing below an integer is rounded to a
  number below that integer.
\<close>

lemma rnd64_0 [simp]: "rnd64 0 = 0"
  by (simp add: rnd64_def)

lemma rnd64_pos:
  "0 < x \<Longrightarrow>
   rnd64 x = of_int (round_half_even (x / 2 powi (binade x - 52))) * 2 powi (binade x - 52)"
  by (simp add: rnd64_def Let_def)

lemma rnd64_minus: "rnd64 (- x) = - rnd64 x"
  by (simp add: rnd64_def Let_def sgn_minus)

lemma rnd64_nearest:
  assumes "0 < x"
  shows "\<bar>rnd64 x - x\<bar> \<le> 2 powi (binade x - 53)"
proof -
  define u :: rat where "u = 2 powi (binade x - 52)"
  define k where "k = round_half_even (x / u)"
  have u: "0 < u" by (simp add: u_def)
  have half: "2 powi (binade x - 53) = 1 / 2 * u" by (simp add: u_def power_int_diff)
  have k: "\<bar>of_int k - x / u\<bar> \<le> 1 / 2"
    using rhe_bounds [of "x / u"] unfolding abs_le_iff k_def by linarith
  have "of_int k * u - x = (of_int k - x / u) * u"
    using u by (simp add: left_diff_distrib)
  then have "\<bar>of_int k * u - x\<bar> = \<bar>of_int k - x / u\<bar> * u"
    using u by (simp only: abs_mult)
  also have "\<dots> \<le> 1 / 2 * u" using k u by (simp only: mult_le_cancel_right_pos)
  finally show ?thesis using assms by (simp only: rnd64_pos half u_def k_def)
qed

lemma rnd64_range:
  assumes "0 < x"
  shows "2 powi binade x \<le> rnd64 x \<and> rnd64 x \<le> 2 powi (binade x + 1)"
proof -
  define e where "e = binade x"
  define u :: rat where "u = 2 powi (e - 52)"
  have u: "0 < u" by (simp add: u_def)
  have lo: "2 powi e = 2 ^ 52 * u" 
    unfolding u_def by (simp add: power_int_diff)
  have hi: "2 powi (e + 1) = 2 ^ 53 * u"
    unfolding u_def by (simp add: power_int_diff power_int_add)
  note b = binade_bounds [OF assms, folded e_def]
  have "of_int (2 ^ 52) \<le> x / u" using b u lo by (simp add: pos_le_divide_eq)
  then have 1: "2 ^ 52 \<le> round_half_even (x / u)" by (rule rhe_ge)
  have "x / u \<le> of_int (2 ^ 53)" using b u hi by (simp add: pos_divide_le_eq)
  then have 2: "round_half_even (x / u) \<le> 2 ^ 53" by (rule rhe_le)
  have r: "rnd64 x = of_int (round_half_even (x / u)) * u"
    using assms by (simp add: rnd64_pos u_def e_def)
  have "2 ^ 52 * u \<le> of_int (round_half_even (x / u)) * u"
    using 1 u by (simp add: of_int_le_numeral_power_cancel_iff)
  moreover have "of_int (round_half_even (x / u)) * u \<le> 2 ^ 53 * u"
    using 2 u by (simp add: of_int_le_numeral_power_cancel_iff)
  ultimately show ?thesis using r lo hi by (simp add: e_def)
qed

lemma rnd64_mono_pos:
  assumes "0 < x" "x \<le> y"
  shows "rnd64 x \<le> rnd64 y"
proof -
  have y: "0 < y" using assms by simp
  show ?thesis
  proof (cases "binade x = binade y")
    case True
    define u :: rat where "u = 2 powi (binade y - 52)"
    have u: "0 < u" by (simp add: u_def)
    have "x / u \<le> y / u" using assms(2) u by (simp add: divide_right_mono)
    then have "round_half_even (x / u) \<le> round_half_even (y / u)" by (rule rhe_mono)
    then have "of_int (round_half_even (x / u)) * u \<le> of_int (round_half_even (y / u)) * u"
      using u by simp
    then show ?thesis using assms(1) y True by (simp add: rnd64_pos u_def)
  next
    case False
    then have "binade x + 1 \<le> binade y" using binade_mono [OF assms] by simp
    then have "(2::rat) powi (binade x + 1) \<le> 2 powi binade y"
      by (simp add: power_int_increasing)
    then show ?thesis using rnd64_range [OF assms(1)] rnd64_range [OF y] by linarith
  qed
qed

lemma rnd64_nonneg: "0 \<le> x \<Longrightarrow> 0 \<le> rnd64 x"
proof (cases "x = 0")
  case True
  then show ?thesis by simp
next
  case False
  assume "0 \<le> x"
  with False have x: "0 < x" by simp
  have "(0::rat) < 2 powi binade x" by simp
  then show ?thesis using rnd64_range [OF x] by linarith
qed

lemma rnd64_nonpos: "x \<le> 0 \<Longrightarrow> rnd64 x \<le> 0"
  using rnd64_nonneg [of "- x"] by (simp add: rnd64_minus)

lemma rnd64_mono:
  assumes "x \<le> y"
  shows "rnd64 x \<le> rnd64 y"
proof -
  consider "0 < x" | "x \<le> 0" "0 \<le> y" | "y < 0" by linarith
  then show ?thesis
  proof cases
    case 1
    then show ?thesis using assms by (rule rnd64_mono_pos)
  next
    case 2
    then show ?thesis using rnd64_nonpos [of x] rnd64_nonneg [of y] by linarith
  next
    case 3
    then have "rnd64 (- y) \<le> rnd64 (- x)" using assms by (intro rnd64_mono_pos) simp_all
    then show ?thesis by (simp add: rnd64_minus)
  qed
qed

lemma rnd64_of_int_pos:
  assumes "0 < k" "k < 2 ^ 53"
  shows "rnd64 (of_int k) = of_int k"
proof -
  define e where "e = bitlen k - 1"
  have e0: "0 \<le> e"
    using assms(1) bitlen_eq_zero_iff [of k] bitlen_nonneg [of k] by (simp add: e_def)
  have "bitlen k \<le> 53" using assms(2) by (simp add: bitlen_le_iff_power)
  then have e52: "e \<le> 52" by (simp add: e_def)
  have "(2::int) ^ nat e \<le> k" using bitlen_bounds [OF assms(1)] by (simp add: e_def)
  then have "(of_int ((2::int) ^ nat e) :: rat) \<le> of_int k" by (simp only: of_int_le_iff)
  then have lo: "(2::rat) powi e \<le> of_int k" using e0 by (simp add: power_int_nonneg_exp)
  have "k < (2::int) ^ nat (e + 1)" using bitlen_bounds [OF assms(1)] by (simp add: e_def)
  then have "(of_int k :: rat) < of_int ((2::int) ^ nat (e + 1))" by (simp only: of_int_less_iff)
  then have hi: "of_int k < (2::rat) powi (e + 1)" using e0 by (simp add: power_int_nonneg_exp)
  have b: "binade (of_int k) = e" using lo hi by (rule binade_unique)
  have u: "(2::rat) powi (e - 52) = 1 / 2 ^ nat (52 - e)"
    using e52 by (simp add: power_int_def power_one_over)
  have q: "of_int k / (2::rat) powi (e - 52) = of_int (k * 2 ^ nat (52 - e))"
    by (simp add: u)
  have "rnd64 (of_int k) = of_int (k * 2 ^ nat (52 - e)) * 2 powi (e - 52)"
    using assms(1) by (simp only: rnd64_pos of_int_0_less_iff b q rhe_of_int)
  then show ?thesis by (simp add: u)
qed

lemma rnd64_of_int:
  assumes "\<bar>k\<bar> < 2 ^ 53"
  shows "rnd64 (of_int k) = of_int k"
proof -
  consider "0 < k" | "k = 0" | "k < 0" by linarith
  then show ?thesis
  proof cases
    case 1
    then show ?thesis using assms by (simp add: rnd64_of_int_pos)
  next
    case 2
    then show ?thesis by simp
  next
    case 3
    then have "rnd64 (of_int (- k)) = of_int (- k)" using assms by (intro rnd64_of_int_pos) simp_all
    then show ?thesis by (simp add: rnd64_minus)
  qed
qed

lemma rnd64_1: "rnd64 1 = 1"
  using rnd64_of_int [of 1] by simp

lemma rnd64_below:
  assumes x: "0 < x" and e: "binade x \<le> 52"
    and m: "x + 2 powi (binade x - 53) < of_int m"
  shows "rnd64 x \<le> of_int m - 2 powi (binade x - 52)"
proof -
  define n where "n = nat (52 - binade x)"
  define u :: rat where "u = 2 powi (binade x - 52)"
  have u: "u = 1 / 2 ^ n" using e by (simp add: u_def n_def power_int_def power_one_over)
  have u2: "2 powi (binade x - 53) = u / 2"
    by (simp add: u_def power_int_diff)
  have "x / u < of_int (m * 2 ^ n) - 1 / 2"
    using m by (simp add: u2) (simp add: u field_simps)
  then have "round_half_even (x / u) \<le> m * 2 ^ n - 1" by (rule rhe_below)
  then have "(of_int (round_half_even (x / u)) :: rat) \<le> of_int (m * 2 ^ n - 1)"
    by (simp only: of_int_le_iff)
  moreover have "0 < u" by (simp add: u)
  ultimately have "of_int (round_half_even (x / u)) * u \<le> of_int (m * 2 ^ n - 1) * u"
    by (simp only: mult_le_cancel_right_pos)
  also have "\<dots> = of_int m - u" by (simp add: u field_simps)
  finally show ?thesis using x by (simp add: rnd64_pos u_def)
qed

subsection \<open>Conversion to \<^verbatim>\<open>int\<close>\<close>

lemma int_of_float64_minus: "int_of_float64 (- f) = - int_of_float64 f"
  by (auto simp add: int_of_float64_def ceiling_def)

lemma int_of_float64_mono:
  assumes "f \<le> g"
  shows "int_of_float64 f \<le> int_of_float64 g"
proof -
  consider "0 \<le> f" | "f < 0" "0 \<le> g" | "g < 0" by linarith
  then show ?thesis
  proof cases
    case 1
    then show ?thesis using assms by (simp add: int_of_float64_def floor_mono)
  next
    case 2
    then have "\<lceil>f\<rceil> \<le> 0" "0 \<le> \<lfloor>g\<rfloor>" by (simp_all add: ceiling_le_iff)
    then have "\<lceil>f\<rceil> \<le> \<lfloor>g\<rfloor>" by linarith
    then show ?thesis using 2 by (simp add: int_of_float64_def)
  next
    case 3
    then show ?thesis using assms by (simp add: int_of_float64_def ceiling_mono)
  qed
qed

subsection \<open>\<^verbatim>\<open>Duration.Hours\<close>\<close>

text \<open>
  For a \<^verbatim>\<open>Duration\<close> the two conversions in \<open>Hours\<close> are exact, so \<open>Hours d\<close> is the
  rounded sum of the whole hours and the rounded fraction of an hour. \<open>Hours\<close> is odd
  and monotone. Below 4096 hours the \<^verbatim>\<open>float64\<close> numbers are at most \<open>1 / 2 ^ 41\<close>
  apart, less than the two nanoseconds (\<open>1 / 1800000000000\<close> of an hour) that would be
  needed to round the last nanosecond of an hour up to the next hour.
\<close>

lemma sdiv_smod_nonneg:
  "0 \<le> d \<Longrightarrow> d sdiv Hour = d div Hour \<and> d smod Hour = d mod Hour"
  by (cases "d = 0") (simp_all add: signed_divide_int_def signed_modulo_int_def Hour_def)

lemma sdiv_smod_minus:
  "(- d) sdiv Hour = - (d sdiv Hour) \<and> (- d) smod Hour = - (d smod Hour)"
  by (simp add: signed_divide_int_def signed_modulo_int_def sgn_minus)

lemma Hours_minus: "Hours (- d) = - Hours d"
proof -
  have "rnd64 (- a + - b) = - rnd64 (a + b)" for a b
    using rnd64_minus [of "a + b"] by simp
  then show ?thesis
    unfolding Hours_def Let_def fadd_def fdiv_def float64_of_int_def
    by (simp only: sdiv_smod_minus of_int_minus rnd64_minus minus_divide_left [symmetric])
qed

lemma Hours_nonneg:
  assumes "0 \<le> d" "d \<le> 2 ^ 63"
  shows "Hours d = rnd64 (of_int (d div Hour) + hour_frac (d mod Hour))"
proof -
  have "d div Hour \<le> 2 ^ 63 div Hour" using assms(2) by (rule zdiv_mono1) (simp add: Hour_def)
  moreover have "0 \<le> d div Hour" using assms(1) by (simp add: Hour_def pos_imp_zdiv_nonneg_iff)
  ultimately have "\<bar>d div Hour\<bar> < 2 ^ 53" by (simp add: Hour_def)
  then have 1: "rnd64 (of_int (d div Hour)) = of_int (d div Hour)" by (rule rnd64_of_int)
  have "0 \<le> d mod Hour" "d mod Hour < Hour" by (simp_all add: Hour_def)
  then have "\<bar>d mod Hour\<bar> < 2 ^ 53" by (simp add: Hour_def)
  then have 2: "rnd64 (of_int (d mod Hour)) = of_int (d mod Hour)" by (rule rnd64_of_int)
  show ?thesis
    using sdiv_smod_nonneg [OF assms(1)]
    by (simp add: Hours_def fadd_def fdiv_def float64_of_int_def 1 2 hour_frac_def)
qed

lemma hour_frac_nonneg: "0 \<le> n \<Longrightarrow> 0 \<le> hour_frac n"
  unfolding hour_frac_def by (rule rnd64_nonneg) simp

lemma hour_frac_max: "hour_frac (Hour - 1) + 1 / 2 ^ 42 < 1"
  unfolding hour_frac_def Hour_def by code_simp

lemma hour_frac_le:
  assumes "n < Hour"
  shows "hour_frac n \<le> hour_frac (Hour - 1)"
proof -
  have "(of_int n :: rat) \<le> of_int (Hour - 1)" using assms by simp
  then have "(of_int n :: rat) / 3600000000000 \<le> of_int (Hour - 1) / 3600000000000"
    by (simp add: divide_right_mono)
  then show ?thesis unfolding hour_frac_def by (rule rnd64_mono)
qed

lemma hour_frac_mono: "m \<le> n \<Longrightarrow> hour_frac m \<le> hour_frac n"
  unfolding hour_frac_def by (rule rnd64_mono) (simp add: divide_right_mono)

lemma hour_frac_less_1: "n < Hour \<Longrightarrow> hour_frac n < 1"
  using hour_frac_le [of n] hour_frac_max by simp

lemma Hours_mono_nonneg:
  assumes "0 \<le> d1" "d1 \<le> d2" "d2 \<le> 2 ^ 63"
  shows "Hours d1 \<le> Hours d2"
proof -
  have d2: "0 \<le> d2" and d1: "d1 \<le> 2 ^ 63" using assms by simp_all
  have H: "0 < Hour" by (simp add: Hour_def)
  have le: "d1 div Hour \<le> d2 div Hour" using assms(2) H by (rule zdiv_mono1)
  have "(of_int (d1 div Hour) :: rat) + hour_frac (d1 mod Hour) \<le> of_int (d2 div Hour) + hour_frac (d2 mod Hour)"
  proof (cases "d1 div Hour = d2 div Hour")
    case True
    then have "d1 mod Hour \<le> d2 mod Hour"
      using assms(2) by (metis add_le_cancel_left mult_div_mod_eq)
    then show ?thesis using True by (simp add: hour_frac_mono)
  next
    case False
    then have "d1 div Hour + 1 \<le> d2 div Hour" using le by simp
    then have "(of_int (d1 div Hour) :: rat) + 1 \<le> of_int (d2 div Hour)"
      by (metis of_int_1 of_int_add of_int_le_iff)
    moreover have "hour_frac (d1 mod Hour) < 1" using H by (intro hour_frac_less_1) simp
    moreover have "0 \<le> hour_frac (d2 mod Hour)" using H by (intro hour_frac_nonneg) simp
    ultimately show ?thesis by linarith
  qed
  then show ?thesis
    by (simp only: Hours_nonneg [OF assms(1) d1] Hours_nonneg [OF d2 assms(3)] rnd64_mono)
qed

lemma Hours_nonneg_sign: "0 \<le> d \<Longrightarrow> 0 \<le> Hours d"
proof -
  assume d: "0 \<le> d"
  have "0 \<le> d div Hour" "0 \<le> d mod Hour" using d by (simp_all add: Hour_def pos_imp_zdiv_nonneg_iff)
  then show ?thesis
    using sdiv_smod_nonneg [OF d]
    by (simp add: Hours_def fadd_def fdiv_def float64_of_int_def rnd64_nonneg)
qed

lemma Hours_nonpos_sign: "d \<le> 0 \<Longrightarrow> Hours d \<le> 0"
  using Hours_nonneg_sign [of "- d"] by (simp add: Hours_minus)

lemma Hours_mono:
  assumes "- (2 ^ 63) \<le> d1" "d1 \<le> d2" "d2 \<le> 2 ^ 63"
  shows "Hours d1 \<le> Hours d2"
proof -
  consider "0 \<le> d1" | "d1 < 0" "0 \<le> d2" | "d2 < 0" by linarith
  then show ?thesis
  proof cases
    case 1
    then show ?thesis using assms by (simp add: Hours_mono_nonneg)
  next
    case 2
    then show ?thesis using Hours_nonpos_sign [of d1] Hours_nonneg_sign [of d2] by simp
  next
    case 3
    then have "Hours (- d2) \<le> Hours (- d1)" using assms by (intro Hours_mono_nonneg) simp_all
    then show ?thesis by (simp add: Hours_minus)
  qed
qed

lemma hours_sum_bounds:
  assumes "0 \<le> d" "d \<le> 2 ^ 63"
  shows "0 \<le> of_int (d div Hour) + hour_frac (d mod Hour)"
    and "of_int (d div Hour) + hour_frac (d mod Hour) < 2 powi 53"
proof -
  have "d div Hour \<le> 2 ^ 63 div Hour" using assms(2) by (rule zdiv_mono1) (simp add: Hour_def)
  then have "d div Hour \<le> 2562047" by (simp add: Hour_def)
  then have 1: "(of_int (d div Hour) :: rat) \<le> 2562047" by (metis of_int_le_iff of_int_numeral)
  have "0 \<le> d div Hour" using assms(1) by (simp add: Hour_def pos_imp_zdiv_nonneg_iff)
  then have 2: "(0::rat) \<le> of_int (d div Hour)" by simp
  have 3: "0 \<le> hour_frac (d mod Hour)" by (rule hour_frac_nonneg) (simp add: Hour_def)
  have 4: "hour_frac (d mod Hour) < 1" by (rule hour_frac_less_1) (simp add: Hour_def)
  show "0 \<le> of_int (d div Hour) + hour_frac (d mod Hour)" using 2 3 by simp
  show "of_int (d div Hour) + hour_frac (d mod Hour) < 2 powi 53" using 1 4 by simp
qed

lemma Hours_bracket:
  assumes d: "0 \<le> d" "d < 4096 * Hour"
  shows "of_int (d div Hour) \<le> Hours d \<and> Hours d < of_int (d div Hour) + 1"
proof -
  define h where "h = d div Hour"
  define v :: rat where "v = of_int h + hour_frac (d mod Hour)"
  have d63: "d \<le> 2 ^ 63" using d(2) by (simp add: Hour_def)
  have H: "Hours d = rnd64 v" using Hours_nonneg [OF d(1) d63] by (simp add: v_def h_def)
  have h0: "0 \<le> h" using d(1) by (simp add: h_def Hour_def pos_imp_zdiv_nonneg_iff)
  have "h \<le> (4096 * Hour - 1) div Hour" unfolding h_def using d(2)
    by (intro zdiv_mono1) (simp_all add: Hour_def)
  then have h4: "h \<le> 4095" by (simp add: Hour_def)
  then have hex: "rnd64 (of_int h) = of_int h" using h0 by (intro rnd64_of_int) simp
  have r0: "0 \<le> hour_frac (d mod Hour)" by (rule hour_frac_nonneg) (simp add: Hour_def)
  have "hour_frac (d mod Hour) \<le> hour_frac (Hour - 1)" by (rule hour_frac_le) (simp add: Hour_def)
  then have r1: "hour_frac (d mod Hour) + 1 / 2 ^ 42 < 1" using hour_frac_max by linarith
  have "rnd64 (of_int h) \<le> rnd64 v" using r0 by (intro rnd64_mono) (simp add: v_def)
  then have lo: "of_int h \<le> rnd64 v" by (simp add: hex)
  have up: "rnd64 v < of_int h + 1"
  proof (cases "v = 0")
    case True
    then show ?thesis using h0 by simp
  next
    case False
    then have vpos: "0 < v" using h0 r0 by (simp add: v_def)
    have "(of_int h :: rat) \<le> 4095" using h4 by (metis of_int_le_iff of_int_numeral)
    then have "v < 2 powi 12" using r1 by (simp add: v_def)
    then have "binade v < 12" using vpos by (intro binade_less)
    then have e11: "binade v \<le> 11" by simp
    then have "(2::rat) powi (binade v - 53) \<le> 2 powi (- 42)"
      by (intro power_int_increasing) simp_all
    then have "(2::rat) powi (binade v - 53) \<le> 1 / 2 ^ 42" by (simp add: power_int_minus_divide)
    then have "v + 2 powi (binade v - 53) < of_int (h + 1)" using r1 by (simp add: v_def)
    then have "rnd64 v \<le> of_int (h + 1) - 2 powi (binade v - 52)"
      using vpos e11 by (intro rnd64_below) simp_all
    moreover have "(0::rat) < 2 powi (binade v - 52)" by simp
    ultimately show ?thesis by (simp only: of_int_add of_int_1)
  qed
  from lo up show ?thesis by (simp add: H h_def)
qed

subsection \<open>The day count\<close>

text \<open>
  Dividing a \<^verbatim>\<open>float64\<close> by 24 and rounding the quotient never reaches the next
  integer: a \<^verbatim>\<open>float64\<close> below \<open>24 * M\<close> is at least one spacing below it, and a 24th
  of that spacing is more than half the spacing of the quotient's binade.
\<close>

lemma daysAgo_of_minus: "daysAgo_of (- d) = - daysAgo_of d"
  by (simp add: daysAgo_of_def Hours_minus fdiv_def rnd64_minus int_of_float64_minus)

lemma daysAgo_of_mono:
  assumes "- (2 ^ 63) \<le> d1" "d1 \<le> d2" "d2 \<le> 2 ^ 63"
  shows "daysAgo_of d1 \<le> daysAgo_of d2"
  unfolding daysAgo_of_def fdiv_def
  by (intro int_of_float64_mono rnd64_mono divide_right_mono Hours_mono assms) simp

lemma daysAgo_of_nonpos: 
  assumes "d \<le> 0"
  shows "daysAgo_of d \<le> 0"
proof -
  have "Hours d / 24 \<le> 0" using Hours_nonpos_sign [OF assms] by simp
  then have "rnd64 (Hours d / 24) \<le> 0" by (rule rnd64_nonpos)
  then show ?thesis by (simp add: daysAgo_of_def fdiv_def int_of_float64_def ceiling_le_iff)
qed

lemma floor_fdiv_24:
  assumes v: "0 < v" and e: "binade v \<le> 52"
  shows "\<lfloor>rnd64 (rnd64 v / 24)\<rfloor> = \<lfloor>rnd64 v / 24\<rfloor>"
proof -
  define n where "n = nat (52 - binade v)"
  define u :: rat where "u = 2 powi (binade v - 52)"
  define k where "k = round_half_even (v / u)"
  define x where "x = rnd64 v / 24"
  define M where "M = \<lfloor>x\<rfloor> + 1"
  have u: "u = 1 / 2 ^ n" using e by (simp add: u_def n_def power_int_def power_one_over)
  have upos: "0 < u" by (simp add: u)
  have H: "rnd64 v = of_int k * u" using v by (simp add: rnd64_pos u_def k_def)
  have "(0::rat) < 2 powi binade v" by simp
  then have Hpos: "0 < rnd64 v" using rnd64_range [OF v] by linarith
  then have xpos: "0 < x" by (simp add: x_def)
  have "(2::rat) powi (binade v + 1) \<le> 2 powi 53" using e by (intro power_int_increasing) simp_all
  then have H53: "rnd64 v \<le> 2 ^ 53" using rnd64_range [OF v] by simp
  \<comment> \<open>the quotient is not below \<open>M - 1\<close>, which is a \<^verbatim>\<open>float64\<close>\<close>
  have M1: "of_int (M - 1) \<le> x" by (simp add: M_def)
  have "0 \<le> M - 1" using xpos by (simp add: M_def)
  moreover have "(of_int (M - 1) :: rat) < 2 ^ 53" using M1 H53 by (simp add: x_def)
  then have "M - 1 < 2 ^ 53" by (metis of_int_less_iff of_int_numeral of_int_power)
  ultimately have "rnd64 (of_int (M - 1)) = of_int (M - 1)" by (intro rnd64_of_int) simp
  moreover have "rnd64 (of_int (M - 1)) \<le> rnd64 x" using M1 by (rule rnd64_mono)
  ultimately have lo: "of_int (M - 1) \<le> rnd64 x" by simp
  \<comment> \<open>the quotient is below \<open>M\<close> by at least a 24th of the spacing at \<open>rnd64 v\<close>\<close>
  have "x < of_int M" using floor_correct [of x] by (simp add: M_def)
  then have "(of_int k :: rat) < of_int (24 * M * 2 ^ n)"
    by (simp add: x_def H u field_simps)
  then have "k < 24 * M * 2 ^ n" by (simp only: of_int_less_iff)
  then have "k + 1 \<le> 24 * M * 2 ^ n" by simp
  then have "(of_int (k + 1) :: rat) \<le> of_int (24 * M * 2 ^ n)" by (simp only: of_int_le_iff)
  then have xM: "x \<le> of_int M - u / 24" by (simp add: x_def H u field_simps)
  have "x \<le> 2 powi (binade v + 1) / 24" using rnd64_range [OF v] by (simp add: x_def)
  also have "\<dots> < 2 powi (binade v + 1) / (16::rat)" by (simp add: frac_less2)
  also have "\<dots> = 2 powi (binade v - 3)" by (simp add: power_int_diff power_int_add)
  finally have "binade x < binade v - 3" using xpos by (intro binade_less)
  then have e2: "binade x \<le> binade v - 4" by simp
  then have "(2::rat) powi (binade x - 53) \<le> 2 powi (binade v - 57)"
    by (intro power_int_increasing) simp_all
  also have "\<dots> = u / 32" by (simp add: u_def power_int_diff)
  finally have "x + 2 powi (binade x - 53) < of_int M" using xM upos by linarith
  then have "rnd64 x \<le> of_int M - 2 powi (binade x - 52)"
    using xpos e2 e by (intro rnd64_below) simp_all
  moreover have "(0::rat) < 2 powi (binade x - 52)" by simp
  ultimately have "rnd64 x < of_int (M - 1) + 1" by (simp only: of_int_diff of_int_1)
  with lo have "\<lfloor>rnd64 x\<rfloor> = M - 1" by (rule floor_unique)
  then show ?thesis by (simp add: M_def x_def)
qed

lemma daysAgo_of_floor:
  assumes "0 \<le> d" "d \<le> 2 ^ 63"
  shows "daysAgo_of d = \<lfloor>Hours d / 24\<rfloor>"
proof -
  define v :: rat where "v = of_int (d div Hour) + hour_frac (d mod Hour)"
  have H: "Hours d = rnd64 v" using Hours_nonneg [OF assms] by (simp add: v_def)
  have v0: "0 \<le> v" and v53: "v < 2 powi 53" using hours_sum_bounds [OF assms] by (simp_all add: v_def)
  have "\<lfloor>rnd64 (rnd64 v / 24)\<rfloor> = \<lfloor>rnd64 v / 24\<rfloor>"
  proof (cases "v = 0")
    case True
    then show ?thesis by simp
  next
    case False
    then have vpos: "0 < v" using v0 by simp
    then have "binade v < 53" using v53 by (rule binade_less)
    then show ?thesis using vpos by (intro floor_fdiv_24) simp_all
  qed
  moreover have "0 \<le> rnd64 (rnd64 v / 24)" using v0 by (intro rnd64_nonneg) (simp add: rnd64_nonneg)
  ultimately show ?thesis by (simp add: daysAgo_of_def fdiv_def int_of_float64_def H)
qed

lemma daysAgo_of_truncates:
  assumes "\<bar>d\<bar> \<le> 2 ^ 63"
  shows "daysAgo_of d = int_of_float64 (Hours d / 24)"
proof (cases "0 \<le> d")
  case True
  then have "0 \<le> Hours d / 24" using Hours_nonneg_sign [of d] by simp
  then show ?thesis using True assms by (simp add: daysAgo_of_floor int_of_float64_def)
next
  case False
  then have "0 \<le> Hours (- d) / 24" using Hours_nonneg_sign [of "- d"] by simp
  moreover have "daysAgo_of (- d) = \<lfloor>Hours (- d) / 24\<rfloor>"
    using False assms by (intro daysAgo_of_floor) simp_all
  ultimately have "daysAgo_of (- d) = int_of_float64 (Hours (- d) / 24)"
    by (simp add: int_of_float64_def)
  then have "- daysAgo_of d = int_of_float64 (- (Hours d / 24))"
    by (simp add: daysAgo_of_minus Hours_minus)
  then show ?thesis by (simp add: int_of_float64_minus)
qed

lemma daysAgo_of_exact_nonneg:
  assumes d: "0 \<le> d" "d < 4096 * Hour"
  shows "daysAgo_of d = d div (24 * Hour)"
proof -
  define h where "h = d div Hour"
  define N where "N = h div 24"
  have d63: "d \<le> 2 ^ 63" using d(2) by (simp add: Hour_def)
  have N: "d div (24 * Hour) = N"
    by (simp add: N_def h_def Hour_def zdiv_zmult2_eq mult.commute)
  have "24 * N \<le> h" "h + 1 \<le> 24 * (N + 1)" unfolding N_def by presburger+
  then have "(of_int (24 * N) :: rat) \<le> of_int h" "(of_int (h + 1) :: rat) \<le> of_int (24 * (N + 1))"
    by (simp_all only: of_int_le_iff)
  then have "of_int N \<le> Hours d / 24" "Hours d / 24 < of_int N + 1"
    using Hours_bracket [OF d] by (simp_all add: h_def)
  then have "\<lfloor>Hours d / 24\<rfloor> = N" by (rule floor_unique)
  then show ?thesis by (simp add: daysAgo_of_floor [OF d(1) d63] N)
qed

lemma daysAgo_of_exact:
  assumes "\<bar>d\<bar> < 4096 * Hour"
  shows "daysAgo_of d = d sdiv (24 * Hour)"
proof (cases "0 \<le> d")
  case True
  then show ?thesis using assms
    by (simp add: daysAgo_of_exact_nonneg signed_divide_int_def Hour_def sgn_if)
next
  case False
  then have "daysAgo_of (- d) = (- d) div (24 * Hour)"
    using assms by (intro daysAgo_of_exact_nonneg) simp_all
  then show ?thesis using False
    by (simp add: daysAgo_of_minus signed_divide_int_def Hour_def sgn_if)
qed

subsection \<open>The rounded numbers are normal numbers\<close>

lemma in_normal_range_minus: "in_normal_range (- x) = in_normal_range x"
  by (simp add: in_normal_range_def)

lemma in_normal_range_of_int: "\<bar>k\<bar> < 2 ^ 42 \<Longrightarrow> in_normal_range (of_int k)"
proof -
  assume k: "\<bar>k\<bar> < 2 ^ 42"
  then have "\<bar>of_int k :: rat\<bar> < 2 ^ 42" by (metis of_int_abs of_int_less_iff of_int_numeral of_int_power)
  moreover have "(1::rat) \<le> \<bar>of_int k\<bar>" if "k \<noteq> 0"
  proof -
    have "1 \<le> \<bar>k\<bar>" using that by simp
    then show ?thesis by (metis of_int_abs of_int_1_le_iff)
  qed
  ultimately show ?thesis unfolding in_normal_range_def by (cases "k = 0") auto
qed

lemma hour_frac_min: "1 / 2 ^ 42 \<le> hour_frac 1"
  unfolding hour_frac_def by code_simp

lemma operands_nonneg:
  assumes d: "0 \<le> d" "d \<le> 2 ^ 63"
  shows "in_normal_range (of_int (d div Hour))"
    and "in_normal_range (of_int (d mod Hour))"
    and "in_normal_range (of_int (d mod Hour) / 3600000000000)"
    and "in_normal_range (of_int (d div Hour) + hour_frac (d mod Hour))"
    and "in_normal_range (Hours d / 24)"
proof -
  define h where "h = d div Hour"
  define n where "n = d mod Hour"
  define v :: rat where "v = of_int h + hour_frac n"
  have "h \<le> 2 ^ 63 div Hour" unfolding h_def using d(2) by (rule zdiv_mono1) (simp add: Hour_def)
  then have h1: "h \<le> 2562047" by (simp add: Hour_def)
  have h0: "0 \<le> h" using d(1) by (simp add: h_def Hour_def pos_imp_zdiv_nonneg_iff)
  have n0: "0 \<le> n" and n1: "n < Hour" by (simp_all add: n_def Hour_def)
  show "in_normal_range (of_int (d div Hour))"
    using h0 h1 by (intro in_normal_range_of_int) (simp add: h_def)
  show "in_normal_range (of_int (d mod Hour))"
    using n0 n1 by (intro in_normal_range_of_int) (simp add: n_def Hour_def)
  have rh0: "(0::rat) \<le> of_int h" using h0 by simp
  have rh1: "(of_int h :: rat) \<le> 2562047" using h1 by (metis of_int_le_iff of_int_numeral)
  have "n < 3600000000000" using n1 by (simp add: Hour_def)
  then have "(of_int n :: rat) < of_int 3600000000000" by (simp only: of_int_less_iff)
  then have rn1: "(of_int n :: rat) < 3600000000000" by simp
  have q: "of_int n / (3600000000000::rat) < 1" using rn1 by simp
  have qmin: "1 / 2 ^ 42 \<le> of_int n / (3600000000000::rat)" if "n \<noteq> 0"
  proof -
    have "1 \<le> n" using that n0 by simp
    then have "(1::rat) \<le> of_int n" by simp
    then have "1 / 3600000000000 \<le> of_int n / (3600000000000::rat)" by (simp add: divide_right_mono)
    then show ?thesis by simp
  qed
  show "in_normal_range (of_int (d mod Hour) / 3600000000000)"
    using q qmin n0 unfolding in_normal_range_def n_def [symmetric] by (cases "n = 0") auto
  have r0: "0 \<le> hour_frac n" using n0 by (rule hour_frac_nonneg)
  have r1: "hour_frac n < 1" using n1 by (rule hour_frac_less_1)
  have rmin: "1 / 2 ^ 42 \<le> hour_frac n" if "n \<noteq> 0"
  proof -
    have "1 \<le> n" using that n0 by simp
    then have "hour_frac 1 \<le> hour_frac n" by (rule hour_frac_mono)
    then show ?thesis using hour_frac_min by simp
  qed
  have v0: "0 \<le> v" using rh0 r0 by (simp add: v_def)
  have v1: "v < 2562048" using rh1 r1 by (simp add: v_def)
  have vmin: "1 / 2 ^ 42 \<le> v" if "v \<noteq> 0"
  proof (cases "h = 0")
    case True
    then have "n \<noteq> 0" using that by (auto simp add: v_def hour_frac_def)
    then show ?thesis using rmin True by (simp add: v_def)
  next
    case False
    then have "1 \<le> h" using h0 by simp
    then have "(1::rat) \<le> of_int h" by simp
    then show ?thesis using r0 by (simp add: v_def)
  qed
  show "in_normal_range (of_int (d div Hour) + hour_frac (d mod Hour))"
    using v0 v1 vmin unfolding in_normal_range_def v_def [symmetric] h_def [symmetric] n_def [symmetric]
    by (cases "v = 0") auto
  have H: "Hours d = rnd64 v" using Hours_nonneg [OF d] by (simp add: v_def h_def n_def)
  have H0: "0 \<le> rnd64 v" using v0 by (rule rnd64_nonneg)
  have "rnd64 2562048 = 2562048" using rnd64_of_int [of 2562048] by simp
  moreover have "rnd64 v \<le> rnd64 2562048" using v1 by (intro rnd64_mono) simp
  ultimately have H1: "rnd64 v \<le> 2562048" by simp
  have Hmin: "1 / 2 ^ 42 \<le> rnd64 v" if "v \<noteq> 0"
  proof -
    have vpos: "0 < v" using that v0 by simp
    have "(2::rat) powi (- 42) \<le> v" using vmin [OF that] by (simp add: power_int_minus_divide)
    also have "\<dots> < 2 powi (binade v + 1)" using binade_bounds [OF vpos] by simp
    finally have "- 42 < binade v + 1" by (rule pow2_less_imp)
    then have "(2::rat) powi (- 42) \<le> 2 powi binade v" by (intro power_int_increasing) simp_all
    then show ?thesis using rnd64_range [OF vpos] by (simp add: power_int_minus_divide)
  qed
  show "in_normal_range (Hours d / 24)"
  proof (cases "v = 0")
    case True
    then show ?thesis by (simp add: H in_normal_range_def)
  next
    case False
    have "1 / 2 ^ 47 \<le> (1 / 2 ^ 42) / (24::rat)" by simp
    also have "\<dots> \<le> rnd64 v / 24" using Hmin [OF False] by (simp only: divide_right_mono zero_le_numeral)
    finally have "1 / 2 ^ 47 \<le> \<bar>rnd64 v / 24\<bar>" using H0 by simp
    moreover have "\<bar>rnd64 v / 24\<bar> < 2 ^ 42" using H0 H1 by simp
    ultimately show ?thesis by (simp add: H in_normal_range_def)
  qed
qed

lemma operands_in_normal_range:
  assumes "\<bar>d\<bar> \<le> 2 ^ 63"
  shows "in_normal_range (of_int (d sdiv Hour)) \<and>
    in_normal_range (of_int (d smod Hour)) \<and>
    in_normal_range (of_int (d smod Hour) / 3600000000000) \<and>
    in_normal_range (of_int (d sdiv Hour) + hour_frac (d smod Hour)) \<and>
    in_normal_range (Hours d / 24)"
proof (cases "0 \<le> d")
  case True
  then show ?thesis
    using assms operands_nonneg [of d] sdiv_smod_nonneg [of d] by simp
next
  case False
  then have d: "0 \<le> - d" "- d \<le> 2 ^ 63" using assms by simp_all
  have m: "d sdiv Hour = - ((- d) div Hour)" "d smod Hour = - ((- d) mod Hour)"
    using sdiv_smod_nonneg [OF d(1)] sdiv_smod_minus [of "- d"] by simp_all
  have f: "hour_frac (- n) = - hour_frac n" for n
    by (simp add: hour_frac_def rnd64_minus)
  have e1: "(of_int (d sdiv Hour) :: rat) = - of_int ((- d) div Hour)" by (simp add: m)
  have e2: "(of_int (d smod Hour) :: rat) = - of_int ((- d) mod Hour)" by (simp add: m)
  have e3: "(of_int (d smod Hour) :: rat) / 3600000000000 = - (of_int ((- d) mod Hour) / 3600000000000)"
    by (simp add: m)
  have e4: "of_int (d sdiv Hour) + hour_frac (d smod Hour) =
      - (of_int ((- d) div Hour) + hour_frac ((- d) mod Hour))"
    by (simp add: m f)
  have e5: "Hours d / 24 = - (Hours (- d) / 24)" by (simp add: Hours_minus)
  have "in_normal_range (of_int (d sdiv Hour))"
    using operands_nonneg(1) [OF d] by (simp only: e1 in_normal_range_minus)
  moreover have "in_normal_range (of_int (d smod Hour))"
    using operands_nonneg(2) [OF d] by (simp only: e2 in_normal_range_minus)
  moreover have "in_normal_range (of_int (d smod Hour) / 3600000000000)"
    using operands_nonneg(3) [OF d] by (simp only: e3 in_normal_range_minus)
  moreover have "in_normal_range (of_int (d sdiv Hour) + hour_frac (d smod Hour))"
    using operands_nonneg(4) [OF d] by (simp only: e4 in_normal_range_minus)
  moreover have "in_normal_range (Hours d / 24)"
    using operands_nonneg(5) [OF d] by (simp only: e5 in_normal_range_minus)
  ultimately show ?thesis by simp
qed

section \<open>The level as a function of the count and the day count\<close>

lemma mastery_unfold:
  "mastery timesDone lastDone w =
     (if timesDone \<le> 0 then (0, w)
      else (max 0 (spec_base timesDone - spec_decay (daysAgo_at lastDone (wall_clock w))),
            w\<lparr>clock_reads := Suc (clock_reads w)\<rparr>))"
  by (simp add: mastery_def time_Since_def time_Now_def daysAgo_at_def spec_base_def
      spec_decay_def Let_def)

lemma mastery_at_unfold:
  "mastery_at timesDone lastDone now =
     (if timesDone \<le> 0 then 0
      else max 0 (spec_base timesDone - spec_decay (daysAgo_at lastDone now)))"
  by (simp add: mastery_at_def mastery_unfold)

lemma mastery_level: "fst (mastery timesDone lastDone w) = mastery_at timesDone lastDone (wall_clock w)"
  by (simp add: mastery_unfold mastery_at_unfold)

lemma spec_base_range: "0 \<le> spec_base t \<and> spec_base t \<le> 5"
  by (simp add: spec_base_def)

lemma spec_decay_range: "0 \<le> spec_decay d \<and> spec_decay d \<le> 3"
  by (simp add: spec_decay_def)

lemma spec_base_mono: "t1 \<le> t2 \<Longrightarrow> spec_base t1 \<le> spec_base t2"
  by (simp add: spec_base_def)

lemma spec_decay_mono: "d1 \<le> d2 \<Longrightarrow> spec_decay d1 \<le> spec_decay d2"
  by (simp add: spec_decay_def)

lemma mastery_at_bounds:
  "0 \<le> mastery_at timesDone lastDone now \<and> mastery_at timesDone lastDone now \<le> 5"
  using spec_base_range [of timesDone] spec_decay_range [of "daysAgo_at lastDone now"]
  by (simp add: mastery_at_unfold)

lemma Mastery_String_table:
  "Mastery_String 0 = ''''" "Mastery_String 1 = ''+''" "Mastery_String 2 = ''++''"
  "Mastery_String 3 = ''+++''" "Mastery_String 4 = ''++++''" "Mastery_String 5 = ''+++++''"
  by (simp_all add: Mastery_String_def levels_def)

lemma Mastery_String_outside: "m < 0 \<or> 5 < m \<Longrightarrow> Mastery_String m = ''''"
  by (auto simp add: Mastery_String_def levels_def)

lemma Mastery_String_length:
  assumes "0 \<le> m" "m \<le> 5"
  shows "int (length (Mastery_String m)) = m"
proof -
  from assms have "m = 0 \<or> m = 1 \<or> m = 2 \<or> m = 3 \<or> m = 4 \<or> m = 5" by arith
  then show ?thesis by (auto simp add: Mastery_String_table)
qed


section \<open>Elapsed time\<close>

lemma Time_Sub_range: "- (2 ^ 63) \<le> Time_Sub t u \<and> Time_Sub t u \<le> 2 ^ 63"
  by (simp add: Time_Sub_def minDuration_def maxDuration_def Let_def)

lemma Time_Sub_mono: "t1 \<le> t2 \<Longrightarrow> Time_Sub t1 u \<le> Time_Sub t2 u"
  by (simp add: Time_Sub_def minDuration_def maxDuration_def Let_def)

lemma Time_Sub_future: "t < u \<Longrightarrow> Time_Sub t u < 0"
  by (simp add: Time_Sub_def minDuration_def maxDuration_def Let_def)

lemma Time_Sub_exact: "\<bar>t - u\<bar> < 4096 * Hour \<Longrightarrow> Time_Sub t u = t - u"
  unfolding Time_Sub_def minDuration_def maxDuration_def Let_def Hour_def by simp arith

lemma daysAgo_at_mono: "now1 \<le> now2 \<Longrightarrow> daysAgo_at lastDone now1 \<le> daysAgo_at lastDone now2"
  unfolding daysAgo_at_def
  using Time_Sub_range [of now1 lastDone] Time_Sub_range [of now2 lastDone]
  by (intro daysAgo_of_mono Time_Sub_mono) simp_all

lemma daysAgo_at_future: "now < lastDone \<Longrightarrow> daysAgo_at lastDone now \<le> 0"
  unfolding daysAgo_at_def using Time_Sub_future [of now lastDone]
  by (intro daysAgo_of_nonpos) simp


section \<open>Properties of the scoring function\<close>

text \<open>
  C1. For every count, every time of the last completion (the zero time stands for an
  absent or unreadable date) and every reading of the clock, the level that \<^verbatim>\<open>mastery\<close>
  returns lies between 0 and 5.
\<close>

theorem level_in_range:
  "0 \<le> mastery_at timesDone lastDone now \<and> mastery_at timesDone lastDone now \<le> 5"
  using spec_base_range [of timesDone] spec_decay_range [of "daysAgo_at lastDone now"]
  by (simp add: mastery_at_unfold)

text \<open>
  C2. For a count of at least 1 the level is \<open>max 0 (base - decay)\<close>, where \<open>base\<close> is
  the specification's step function of the count and \<open>decay\<close> its step function of the
  day count that \<^verbatim>\<open>mastery\<close> computes from the last completion and the clock.
\<close>

theorem level_is_base_minus_decay:
  "1 \<le> timesDone \<Longrightarrow>
   mastery_at timesDone lastDone now =
     max 0 (spec_base timesDone - spec_decay (daysAgo_at lastDone now))"
  by (simp add: mastery_at_unfold)

theorem level_is_base_minus_decay_witness:
  "(1::int) \<le> 10 \<and>
   mastery_at 10 0 (10 * day) = max 0 (spec_base 10 - spec_decay (daysAgo_at 0 (10 * day))) \<and>
   mastery_at 10 0 (10 * day) = 2"
proof -
  have a: "(1::int) \<le> 10" by simp
  have b: "max 0 (spec_base 10 - spec_decay (daysAgo_at 0 (10 * day))) = 2" by code_simp
  show ?thesis using a b level_is_base_minus_decay [OF a, of 0 "10 * day"] by simp
qed

text \<open>
  C3. For a count of 0 or less \<^verbatim>\<open>mastery\<close> returns 0 whatever the last completion and
  the clock are, and it returns before \<^verbatim>\<open>time.Since\<close> is called: the world is handed
  back as it was, the clock unread.
\<close>

theorem zero_count_returns_zero:
  "timesDone \<le> 0 \<Longrightarrow> mastery timesDone lastDone w = (0, w)"
  by (simp add: mastery_def)

theorem zero_count_returns_zero_witness:
  "(0::int) \<le> 0 \<and>
   mastery 0 123 \<lparr>wall_clock = 456, clock_reads = 0\<rparr> = (0, \<lparr>wall_clock = 456, clock_reads = 0\<rparr>)"
  using zero_count_returns_zero [of 0 123 "\<lparr>wall_clock = 456, clock_reads = 0\<rparr>"] by simp

text \<open>
  C4 (as stated: the day count is the truncated quotient of the elapsed hours by 24).
  \<^verbatim>\<open>Duration.Hours\<close> returns the elapsed hours as a \<^verbatim>\<open>float64\<close>, and from 4096 hours on
  neighbouring \<^verbatim>\<open>float64\<close> numbers are more than two nanoseconds apart. One nanosecond
  before 171 whole days have passed, \<^verbatim>\<open>hour\<close> is 4103 and \<^verbatim>\<open>nsec\<close> is 3599999999999; the
  sum \<open>4103 + 0.99999999999972\<close> is rounded to 4104, and the day count is 171 although
  only 170 whole days have passed.
\<close>

theorem day_count_rounds_up_counterexample:
  "Time_Sub (171 * day - 1) 0 = 171 * day - 1 \<and>
   Hours (171 * day - 1) = 4104 \<and>
   daysAgo_at 0 (171 * day - 1) = 171 \<and>
   (171 * day - 1) sdiv day = 170"
  by code_simp

text \<open>
  C4 (amended). The day count is the \<^verbatim>\<open>float64\<close> number of hours that
  \<^verbatim>\<open>Duration.Hours\<close> returns, divided by 24 and truncated towards zero; rounding the
  quotient to a \<^verbatim>\<open>float64\<close> before the truncation changes nothing. Whenever less than
  4096 hours lie between the last completion and the clock, in either direction, the day
  count is the elapsed time divided by 24 hours and truncated towards zero. In particular
  71 hours give 2 days.
\<close>

theorem day_count_truncates:
  "daysAgo_at lastDone now = int_of_float64 (Hours (Time_Sub now lastDone) / 24) \<and>
   (\<bar>now - lastDone\<bar> < 4096 * Hour \<longrightarrow> daysAgo_at lastDone now = (now - lastDone) sdiv (24 * Hour)) \<and>
   daysAgo_at lastDone (lastDone + 71 * Hour) = 2"
proof -
  have "\<bar>Time_Sub now lastDone\<bar> \<le> 2 ^ 63" using Time_Sub_range [of now lastDone] by arith
  then have 1: "daysAgo_at lastDone now = int_of_float64 (Hours (Time_Sub now lastDone) / 24)"
    unfolding daysAgo_at_def by (rule daysAgo_of_truncates)
  have 2: "daysAgo_at l n = (n - l) sdiv (24 * Hour)" if "\<bar>n - l\<bar> < 4096 * Hour" for n l
    using that by (simp add: daysAgo_at_def Time_Sub_exact daysAgo_of_exact)
  have "daysAgo_at lastDone (lastDone + 71 * Hour) = (71 * Hour) sdiv (24 * Hour)"
    using 2 [of "lastDone + 71 * Hour" lastDone] by (simp add: Hour_def)
  also have "\<dots> = 2" by (simp add: Hour_def signed_divide_int_def)
  finally have 3: "daysAgo_at lastDone (lastDone + 71 * Hour) = 2" .
  from 1 2 [of now lastDone] 3 show ?thesis by blast
qed

theorem day_count_truncates_witness:
  "\<bar>(72 * Hour - 1) - 0\<bar> < 4096 * Hour \<and>
   daysAgo_at 0 (72 * Hour - 1) = ((72 * Hour - 1) - 0) sdiv (24 * Hour) \<and>
   ((72 * Hour - 1) - 0) sdiv (24 * Hour) = 2"
proof -
  have a: "\<bar>(72 * Hour - 1) - 0\<bar> < 4096 * Hour" by (simp add: Hour_def)
  have b: "((72 * Hour - 1) - 0) sdiv (24 * Hour) = 2" by (simp add: Hour_def signed_divide_int_def)
  show ?thesis using a b day_count_truncates [of 0 "72 * Hour - 1"] by blast
qed

text \<open>
  C5. For a count of at least 1 and a last completion that is later than the clock, the
  day count is not positive; it falls into the first bracket of the decay table, the
  decay is 0, and the level is the base level of the count.
\<close>

theorem future_completion_no_decay:
  "1 \<le> timesDone \<Longrightarrow> now < lastDone \<Longrightarrow>
   daysAgo_at lastDone now \<le> 0 \<and> spec_decay (daysAgo_at lastDone now) = 0 \<and>
   mastery_at timesDone lastDone now = spec_base timesDone"
  using daysAgo_at_future [of now lastDone] spec_base_range [of timesDone]
  by (simp add: mastery_at_unfold spec_decay_def)

theorem future_completion_no_decay_witness:
  "(1::int) \<le> 5 \<and> (0::int) < 20 * day \<and>
   daysAgo_at (20 * day) 0 \<le> 0 \<and> spec_decay (daysAgo_at (20 * day) 0) = 0 \<and>
   mastery_at 5 (20 * day) 0 = spec_base 5 \<and> spec_base 5 = 2"
proof -
  have a: "(1::int) \<le> 5" by simp
  have b: "(0::int) < 20 * day" by (simp add: day_def Hour_def)
  have c: "spec_base 5 = 2" by (simp add: spec_base_def)
  show ?thesis using a b c future_completion_no_decay [OF a b] by simp
qed

text \<open>
  C6. For a fixed positive count and a fixed last completion, the level does not
  increase when the clock moves on.
\<close>

theorem level_antitone_in_time:
  "0 < timesDone \<Longrightarrow> now1 \<le> now2 \<Longrightarrow>
   mastery_at timesDone lastDone now2 \<le> mastery_at timesDone lastDone now1"
  using spec_decay_mono [OF daysAgo_at_mono [of now1 now2 lastDone]]
  by (simp add: mastery_at_unfold)

theorem level_antitone_in_time_witness:
  "(0::int) < 10 \<and> 2 * day \<le> 10 * day \<and>
   mastery_at 10 0 (10 * day) \<le> mastery_at 10 0 (2 * day) \<and>
   mastery_at 10 0 (10 * day) = 2 \<and> mastery_at 10 0 (2 * day) = 4"
proof -
  have a: "(0::int) < 10" by simp
  have b: "2 * day \<le> 10 * day" by (simp add: day_def Hour_def)
  have c: "mastery_at 10 0 (10 * day) = 2" by code_simp
  have d: "mastery_at 10 0 (2 * day) = 4" by code_simp
  show ?thesis using a b c d level_antitone_in_time [OF a b, of 0] by simp
qed

text \<open>
  C7. For a fixed last completion and a fixed reading of the clock, the level does not
  decrease when the count grows from one non-negative value to another.
\<close>

theorem level_monotone_in_count:
  "0 \<le> t1 \<Longrightarrow> t1 \<le> t2 \<Longrightarrow>
   mastery_at t1 lastDone now \<le> mastery_at t2 lastDone now"
  using spec_base_mono [of t1 t2]
  by (auto simp add: mastery_at_unfold max_def)

theorem level_monotone_in_count_witness:
  "(0::int) \<le> 1 \<and> (1::int) \<le> 20 \<and>
   mastery_at 1 0 (5 * day) \<le> mastery_at 20 0 (5 * day) \<and>
   mastery_at 1 0 (5 * day) = 0 \<and> mastery_at 20 0 (5 * day) = 4"
proof -
  have a: "(0::int) \<le> 1" and b: "(1::int) \<le> 20" by simp_all
  have c: "mastery_at 1 0 (5 * day) = 0" by code_simp
  have d: "mastery_at 20 0 (5 * day) = 4" by code_simp
  show ?thesis using a b c d level_monotone_in_count [OF a b, of 0 "5 * day"] by simp
qed

text \<open>
  C8. \<^verbatim>\<open>Mastery.String\<close> renders the levels 0 to 5 as that many plus signs and every other
  level as the empty string; the string it renders for a level that \<^verbatim>\<open>mastery\<close> returned
  is as long as the level.
\<close>

theorem level_symbol:
  "Mastery_String 0 = '''' \<and> Mastery_String 1 = ''+'' \<and> Mastery_String 2 = ''++'' \<and>
   Mastery_String 3 = ''+++'' \<and> Mastery_String 4 = ''++++'' \<and> Mastery_String 5 = ''+++++'' \<and>
   (m < 0 \<or> 5 < m \<longrightarrow> Mastery_String m = '''') \<and>
   int (length (Mastery_String (mastery_at timesDone lastDone now))) =
     mastery_at timesDone lastDone now"
  using mastery_at_bounds [of timesDone lastDone now]
  by (simp add: Mastery_String_table Mastery_String_outside Mastery_String_length)

theorem level_symbol_witness:
  "((7::int) < 0 \<or> (5::int) < 7) \<and> Mastery_String 7 = '''' \<and>
   int (length (Mastery_String (mastery_at 10 0 (2 * day)))) = mastery_at 10 0 (2 * day) \<and>
   Mastery_String (mastery_at 10 0 (2 * day)) = ''++++''"
proof -
  have c: "mastery_at 10 0 (2 * day) = 4" by code_simp
  show ?thesis using c level_symbol [of 7 10 0 "2 * day"] by simp
qed

text \<open>
  C9 (as stated: the clock reading is a parameter of the scoring function and no clock
  is read inside it). \<^verbatim>\<open>mastery(timesDone, lastDone)\<close> has two parameters and calls
  \<^verbatim>\<open>time.Since\<close>: with the same two arguments it returns level 1 when the clock shows
  the time of the last completion and level 0 thirty days later, and it has read the
  clock once.
\<close>

theorem clock_is_read_counterexample:
  "fst (mastery 1 0 \<lparr>wall_clock = 0, clock_reads = 0\<rparr>) = 1 \<and>
   fst (mastery 1 0 \<lparr>wall_clock = 30 * day, clock_reads = 0\<rparr>) = 0 \<and>
   clock_reads (snd (mastery 1 0 \<lparr>wall_clock = 0, clock_reads = 0\<rparr>)) = 1"
  by code_simp

text \<open>
  C9 (amended). \<^verbatim>\<open>mastery\<close> takes the count and the last completion; for a positive
  count it reads the wall clock once. The level is determined by the two arguments and
  that reading: two calls with the same arguments, made in worlds whose clocks show the
  same time, return the same level.
\<close>

theorem level_determined_by_clock:
  "(wall_clock w1 = wall_clock w2 \<longrightarrow>
      fst (mastery timesDone lastDone w1) = fst (mastery timesDone lastDone w2)) \<and>
   (0 < timesDone \<longrightarrow>
      clock_reads (snd (mastery timesDone lastDone w1)) = Suc (clock_reads w1))"
  by (simp add: mastery_unfold)

theorem level_determined_by_clock_witness:
  "wall_clock \<lparr>wall_clock = 10 * day, clock_reads = 0\<rparr> =
     wall_clock \<lparr>wall_clock = 10 * day, clock_reads = 7\<rparr> \<and>
   fst (mastery 10 0 \<lparr>wall_clock = 10 * day, clock_reads = 0\<rparr>) =
     fst (mastery 10 0 \<lparr>wall_clock = 10 * day, clock_reads = 7\<rparr>) \<and>
   (0::int) < 10 \<and>
   clock_reads (snd (mastery 10 0 \<lparr>wall_clock = 10 * day, clock_reads = 0\<rparr>)) = Suc 0"
  using level_determined_by_clock
    [of "\<lparr>wall_clock = 10 * day, clock_reads = 0\<rparr>"
        "\<lparr>wall_clock = 10 * day, clock_reads = 7\<rparr>" 10 0]
  by simp


section \<open>Marking a kata as done\<close>












end
